theory Spec2Isabelle
  imports Main
begin

section \<open>Column construction of the table core\<close>

text \<open>
  A shallow embedding of \<open>createColumn\<close> (core column module) with the two memoised
  accessors it installs on every column node, \<open>getFlatColumns\<close> and \<open>getLeafColumns\<close>.
  Column nodes are mutable objects that refer to each other (\<open>parent\<close>, \<open>columns\<close>),
  so they live in an explicit store and are named by their address.
\<close>

subsection \<open>JavaScript values and string primitives\<close>

text \<open>
  Row data: plain values and plain objects. An object is the list of its own
  properties; inherited members (\<open>toString\<close>, \<open>length\<close> of a string, ...) are
  outside the model, so a property read on a primitive gives \<open>undefined\<close>.
\<close>

datatype jsval =
    JUndefined
  | JNull
  | JBool bool
  | JNum int
  | JStr string
  | JObj "(string \<times> jsval) list"

datatype error = Error string | TypeError string

text \<open>\<open>str.replace(pat, rep)\<close> with a one-character string pattern: only the first
  occurrence is replaced.\<close>

fun js_replace :: "char \<Rightarrow> char \<Rightarrow> string \<Rightarrow> string" where
  "js_replace pat rep [] = []"
| "js_replace pat rep (c # cs) = (if c = pat then rep # cs else c # js_replace pat rep cs)"

text \<open>\<open>str.includes(pat)\<close> with a one-character string.\<close>

definition js_includes :: "char \<Rightarrow> string \<Rightarrow> bool" where
  "js_includes pat str = (pat \<in> set str)"

text \<open>\<open>str.split(sep)\<close> with a one-character separator; \<open>''''.split('.')\<close> is \<open>['''']\<close>.\<close>

fun js_split :: "char \<Rightarrow> string \<Rightarrow> string list" where
  "js_split sep [] = [[]]"
| "js_split sep (c # cs) =
     (if c = sep then [] # js_split sep cs
      else (case js_split sep cs of
              w # ws \<Rightarrow> (c # w) # ws
            | [] \<Rightarrow> [[c]]))"

text \<open>\<open>obj[key]\<close> on a value that is neither \<open>null\<close> nor \<open>undefined\<close>.\<close>

fun js_get :: "jsval \<Rightarrow> string \<Rightarrow> jsval" where
  "js_get (JObj ps) key = (case map_of ps key of Some v \<Rightarrow> v | None \<Rightarrow> JUndefined)"
| "js_get v key = JUndefined"

text \<open>\<open>obj?.[key]\<close>: a nullish receiver gives \<open>undefined\<close>.\<close>

fun js_get_opt :: "jsval \<Rightarrow> string \<Rightarrow> jsval" where
  "js_get_opt JUndefined key = JUndefined"
| "js_get_opt JNull key = JUndefined"
| "js_get_opt v key = js_get v key"

text \<open>\<open>obj[key]\<close> as an expression: reading a property of \<open>null\<close> or \<open>undefined\<close>
  throws a \<open>TypeError\<close>.\<close>

fun js_index :: "jsval \<Rightarrow> string \<Rightarrow> error + jsval" where
  "js_index JUndefined key = Inl (TypeError ''Cannot read properties of undefined'')"
| "js_index JNull key = Inl (TypeError ''Cannot read properties of null'')"
| "js_index v key = Inr (js_get v key)"

text \<open>\<open>a ?? b\<close> on values whose only nullish form is \<open>undefined\<close> (\<open>None\<close>).\<close>

definition nullish :: "'a option \<Rightarrow> 'a option \<Rightarrow> 'a option" where
  "nullish a b = (case a of None \<Rightarrow> b | Some v \<Rightarrow> Some v)"

text \<open>Truthiness of an optional string: \<open>undefined\<close> and the empty string are falsy.\<close>

definition truthy :: "string option \<Rightarrow> bool" where
  "truthy v = (case v of None \<Rightarrow> False | Some str \<Rightarrow> str \<noteq> [])"

subsection \<open>Column definitions\<close>

text \<open>
  A property of an object literal is absent, present with the value \<open>undefined\<close>, or
  present with a value. The difference between the first two shows in an object spread:
  a property that is present in the later operand wins even when it is \<open>undefined\<close>.
\<close>

datatype 'a property = Absent | Undefined | Value 'a

definition prop_get :: "'a property \<Rightarrow> 'a option" where
  "prop_get p = (case p of Value v \<Rightarrow> Some v | _ \<Rightarrow> None)"

definition prop_spread :: "'a property \<Rightarrow> 'a property \<Rightarrow> 'a property" where
  "prop_spread a b = (case b of Absent \<Rightarrow> a | _ \<Rightarrow> b)"

text \<open>A header is a string or a template (a render function or component, kept as an
  opaque reference).\<close>

datatype header = HeaderString string | HeaderTemplate nat

text \<open>An accessor function the user supplies maps a row to a value or throws.\<close>

type_synonym UserAccessorFn = "jsval \<Rightarrow> error + jsval"

text \<open>
  Modelled from the spec: the type \<open>ColumnDef\<close> of the types module, which is not among
  the sources. A definition has an optional \<open>id\<close> (a string), an optional \<open>accessorKey\<close>
  (a dot-path string) or \<open>accessorFn\<close>, and an optional \<open>header\<close> (a string or something
  to render); these are the fields that \<open>createColumn\<close> reads.
\<close>

record ColumnDef =
  def_id :: "string property"
  def_accessorKey :: "string property"
  def_accessorFn :: "UserAccessorFn property"
  def_header :: "header property"

text \<open>\<open>{...defaultColumn, ...columnDef}\<close>\<close>

definition spread :: "ColumnDef \<Rightarrow> ColumnDef \<Rightarrow> ColumnDef" where
  "spread defaultColumn columnDef =
     \<lparr> def_id = prop_spread (def_id defaultColumn) (def_id columnDef),
       def_accessorKey = prop_spread (def_accessorKey defaultColumn) (def_accessorKey columnDef),
       def_accessorFn = prop_spread (def_accessorFn defaultColumn) (def_accessorFn columnDef),
       def_header = prop_spread (def_header defaultColumn) (def_header columnDef) \<rparr>"

subsection \<open>Column nodes, features and the table\<close>

type_synonym addr = nat

text \<open>
  The resolved accessor of a node is the user's function, or one of the two closures
  that \<open>createColumn\<close> builds; a closure is represented by the key it captures.
\<close>

datatype AccessorFn =
    UserFn UserAccessorFn
  | DeepKeyFn string
  | KeyFn string

text \<open>
  The cell of a memoised function: nothing before the first call, afterwards the
  dependency key and the result of the latest computation.
\<close>

type_synonym ('d, 'r) memo_cell = "('d \<times> 'r) option"

text \<open>
  A column node: the fields of \<open>CoreColumn\<close> (lines 13-69). The two memoised accessors
  are closures over the node; their private state is the memo cell kept with the node.
  \<open>col_extra\<close> holds the fields that features attach.
\<close>

record Column =
  col_id :: string
  col_accessorFn :: "AccessorFn option"
  col_parent :: "addr option"
  col_depth :: int
  col_columnDef :: ColumnDef
  col_columns :: "addr list"
  col_getFlatColumns :: "(bool list, addr list) memo_cell"
  col_getLeafColumns :: "(nat list, addr list) memo_cell"
  col_extra :: "string \<rightharpoonup> jsval"

type_synonym store = "Column list"

text \<open>
  Modelled from the spec: the type \<open>TableFeature\<close> of the types module, which is not
  among the sources. A feature offers an optional \<open>createColumn\<close> hook, which may mutate
  the node it is given; the hook is represented by the node it leaves behind.
\<close>

record TableFeature =
  feature_createColumn :: "(Column \<Rightarrow> Column) option"

text \<open>
  Modelled from the spec: the leaf-column ordering function that
  \<open>table._getOrderColumnsFn()\<close> returns, which is not among the sources. It maps a
  sequence of nodes to a sequence of nodes; being a function object it also has an
  identity, which is what the dependency key of a memoised accessor holds.
\<close>

record OrderColumnsFn =
  fn_ref :: nat
  fn_call :: "addr list \<Rightarrow> addr list"

text \<open>
  Modelled from the spec: the type \<open>Table\<close> of the types module, which is not among the
  sources, as far as \<open>createColumn\<close> and the accessors use it:
  \<open>table._getDefaultColumnDef()\<close>, \<open>table._features\<close> (a mapping from feature names to
  features, an object; the list gives the registrations that built it, in the order
  they were made) and \<open>table._getOrderColumnsFn()\<close>.
\<close>

record Table =
  getDefaultColumnDef :: ColumnDef
  features :: "(string \<times> TableFeature) list"
  getOrderColumnsFn :: OrderColumnsFn

text \<open>
  \<open>Object.values(obj)\<close>. An object is given by the property assignments that built it,
  in the order they were made (for \<open>table._features\<close>: the registrations).
  Assigning a name that the object already has replaces the value and leaves the
  property at its place. The own properties are enumerated with the names that are
  array indices first, in ascending numeric order, and then the other names in the
  order of their creation. An array index is the canonical decimal form of an integer
  from \<open>0\<close> to \<open>2^32 - 2\<close>.
\<close>

definition digits :: string where
  "digits = ''0123456789''"

definition is_digit :: "char \<Rightarrow> bool" where
  "is_digit c = (c \<in> set digits)"

definition digit_value :: "char \<Rightarrow> nat" where
  "digit_value c = length (takeWhile (\<lambda>d. d \<noteq> c) digits)"

definition index_value :: "string \<Rightarrow> nat" where
  "index_value name = foldl (\<lambda>n c. 10 * n + digit_value c) 0 name"

definition is_array_index :: "string \<Rightarrow> bool" where
  "is_array_index name =
     (name \<noteq> [] \<and> list_all is_digit name \<and> (hd name = CHR ''0'' \<longrightarrow> name = ''0'') \<and>
      index_value name \<le> 4294967294)"

fun define_property :: "(string \<times> 'a) list \<Rightarrow> string \<times> 'a \<Rightarrow> (string \<times> 'a) list" where
  "define_property [] (name, v) = [(name, v)]"
| "define_property ((name', v') # props) (name, v) =
     (if name' = name then (name, v) # props
      else (name', v') # define_property props (name, v))"

definition own_properties :: "(string \<times> 'a) list \<Rightarrow> (string \<times> 'a) list" where
  "own_properties assignments = foldl define_property [] assignments"

definition Object_values :: "(string \<times> 'a) list \<Rightarrow> 'a list" where
  "Object_values obj =
     (let props = own_properties obj in
      map snd
        (sort_key (\<lambda>p. index_value (fst p)) (filter (\<lambda>p. is_array_index (fst p)) props) @
         filter (\<lambda>p. \<not> is_array_index (fst p)) props))"

subsection \<open>createColumn\<close>

text \<open>Lines 81-86: the definition merged over the table's default definition.\<close>

definition resolveColumnDef :: "Table \<Rightarrow> ColumnDef \<Rightarrow> ColumnDef" where
  "resolveColumnDef table columnDef =
     (let defaultColumn = getDefaultColumnDef table in spread defaultColumn columnDef)"

text \<open>Lines 90-95: the id of the node, \<open>undefined\<close> when nothing supplies one.\<close>

definition resolve_id :: "ColumnDef \<Rightarrow> string option" where
  "resolve_id resolvedColumnDef =
     (let accessorKey = prop_get (def_accessorKey resolvedColumnDef) in
      nullish
        (nullish
           (prop_get (def_id resolvedColumnDef))
           (if truthy accessorKey
            then Some (js_replace (CHR ''.'') (CHR ''_'') (the accessorKey))
            else None))
        (case prop_get (def_header resolvedColumnDef) of
           Some (HeaderString h) \<Rightarrow> Some h
         | _ \<Rightarrow> None))"

text \<open>Lines 97-122: the accessor of the node.\<close>

definition resolve_accessorFn :: "ColumnDef \<Rightarrow> AccessorFn option" where
  "resolve_accessorFn resolvedColumnDef =
     (let accessorKey = prop_get (def_accessorKey resolvedColumnDef) in
      case prop_get (def_accessorFn resolvedColumnDef) of
        Some f \<Rightarrow> Some (UserFn f)
      | None \<Rightarrow>
          if truthy accessorKey then
            (if js_includes (CHR ''.'') (the accessorKey)
             then Some (DeepKeyFn (the accessorKey))
             else Some (KeyFn (the accessorKey)))
          else None)"

text \<open>Lines 104-117: the closure for a deep accessor key. It returns the value and the
  warnings it logs with \<open>console.warn\<close>, oldest first.\<close>

definition warning :: "string \<Rightarrow> string \<Rightarrow> string" where
  "warning key accessorKey =
     [CHR 0x22] @ key @ [CHR 0x22] @ '' in deeply nested key '' @
     [CHR 0x22] @ accessorKey @ [CHR 0x22] @ '' returned undefined.''"

fun deep_loop :: "string option \<Rightarrow> string \<Rightarrow> string list \<Rightarrow> jsval \<Rightarrow> string list
    \<Rightarrow> jsval \<times> string list" where
  "deep_loop NODE_ENV accessorKey [] result log = (result, log)"
| "deep_loop NODE_ENV accessorKey (key # keys) result log =
     (let result' = js_get_opt result key in
      deep_loop NODE_ENV accessorKey keys result'
        (if NODE_ENV \<noteq> Some ''production'' \<and> result' = JUndefined
         then log @ [warning key accessorKey]
         else log))"

definition deepKeyFn :: "string option \<Rightarrow> string \<Rightarrow> jsval \<Rightarrow> jsval \<times> string list" where
  "deepKeyFn NODE_ENV accessorKey originalRow =
     deep_loop NODE_ENV accessorKey (js_split (CHR ''.'') accessorKey) originalRow []"

text \<open>Calling the resolved accessor of a node on a row.\<close>

fun call_accessorFn :: "string option \<Rightarrow> AccessorFn \<Rightarrow> jsval \<Rightarrow> error + (jsval \<times> string list)"
  where
  "call_accessorFn NODE_ENV (UserFn f) originalRow =
     (case f originalRow of Inl e \<Rightarrow> Inl e | Inr v \<Rightarrow> Inr (v, []))"
| "call_accessorFn NODE_ENV (DeepKeyFn accessorKey) originalRow =
     Inr (deepKeyFn NODE_ENV accessorKey originalRow)"
| "call_accessorFn NODE_ENV (KeyFn accessorKey) originalRow =
     (case js_index originalRow accessorKey of Inl e \<Rightarrow> Inl e | Inr v \<Rightarrow> Inr (v, []))"

text \<open>Lines 135-167: the object literal of the new node.\<close>

definition new_column :: "string \<Rightarrow> AccessorFn option \<Rightarrow> addr option \<Rightarrow> int \<Rightarrow> ColumnDef
    \<Rightarrow> Column" where
  "new_column id' accessorFn parent depth resolvedColumnDef =
     \<lparr> col_id = id',
       col_accessorFn = accessorFn,
       col_parent = parent,
       col_depth = depth,
       col_columnDef = resolvedColumnDef,
       col_columns = [],
       col_getFlatColumns = None,
       col_getLeafColumns = None,
       col_extra = Map.empty \<rparr>"

text \<open>Lines 169-171: \<open>forEach\<close> over the enumerated features; every feature that has the
  hook runs it on the node at \<open>a\<close>.\<close>

fun forEach_createColumn :: "TableFeature list \<Rightarrow> addr \<Rightarrow> store \<Rightarrow> store" where
  "forEach_createColumn [] a s = s"
| "forEach_createColumn (feature # fs) a s =
     forEach_createColumn fs a
       (case feature_createColumn feature of
          None \<Rightarrow> s
        | Some hook \<Rightarrow> s[a := hook (s ! a)])"

text \<open>
  \<open>createColumn(table, columnDef, depth, parent)\<close> under the build mode
  \<open>process.env.NODE_ENV\<close>. The new node is allocated at the end of the store. A thrown
  \<open>Error\<close> is the result \<open>Inl\<close>, with the message of the error (empty for \<open>new Error()\<close>).
\<close>

definition createColumn :: "string option \<Rightarrow> Table \<Rightarrow> ColumnDef \<Rightarrow> int \<Rightarrow> addr option \<Rightarrow> store
    \<Rightarrow> error + (addr \<times> store)" where
  "createColumn NODE_ENV table columnDef depth parent s =
     (let resolvedColumnDef = resolveColumnDef table columnDef;
          id' = resolve_id resolvedColumnDef;
          accessorFn = resolve_accessorFn resolvedColumnDef
      in
      if \<not> truthy id' then
        (if NODE_ENV \<noteq> Some ''production'' then
           Inl (Error
             (if prop_get (def_accessorFn resolvedColumnDef) \<noteq> None
              then ''Columns require an id when using an accessorFn''
              else ''Columns require an id when using a non-string header''))
         else Inl (Error ''''))
      else
        (let column = new_column (the id') accessorFn parent depth resolvedColumnDef;
             a = length s
         in Inr (a, forEach_createColumn (Object_values (features table)) a (s @ [column]))))"

text \<open>The hooks of a table leave the id of a node alone (the convention for hooks: they
  add fields and do not replace the ones \<open>createColumn\<close> has set).\<close>

definition hooks_keep_id :: "Table \<Rightarrow> bool" where
  "hooks_keep_id table =
     (\<forall>feature \<in> set (Object_values (features table)).
        case feature_createColumn feature of
          None \<Rightarrow> True
        | Some hook \<Rightarrow> \<forall>column. col_id (hook column) = col_id column)"

subsection \<open>The memoised accessors of a node\<close>

text \<open>
  Modelled from the spec: \<open>memo\<close> of the utilities module, which is not among the
  sources. A memoised function keeps a dependency key and a result. A call computes the
  current key; when a result is cached under an equal key it returns that result and
  computes nothing; otherwise it runs the function, caches key and result, and returns
  the result. Before the first call nothing is cached. The function runs in a state
  \<open>'s\<close> and may fail to return (\<open>None\<close>); \<open>put\<close> writes the cell back.
\<close>

definition memo :: "'d \<Rightarrow> ('d, 'r) memo_cell \<Rightarrow> ('d \<Rightarrow> 's \<Rightarrow> ('r \<times> 's) option)
    \<Rightarrow> (('d, 'r) memo_cell \<Rightarrow> 's \<Rightarrow> 's) \<Rightarrow> 's \<Rightarrow> ('r \<times> 's) option" where
  "memo newDeps cell fn put s =
     (let depsChanged = (case cell of None \<Rightarrow> True | Some (deps, result) \<Rightarrow> deps \<noteq> newDeps) in
      if \<not> depsChanged then Some (snd (the cell), s)
      else (case fn newDeps s of
              None \<Rightarrow> None
            | Some (result, s') \<Rightarrow> Some (result, put (Some (newDeps, result)) s')))"

text \<open>\<open>columns.flatMap(d => f(d))\<close> for an \<open>f\<close> that runs in the store: the calls are made
  from left to right, each in the store the previous one left.\<close>

fun flatMap :: "(addr \<Rightarrow> 's \<Rightarrow> (addr list \<times> 's) option) \<Rightarrow> addr list \<Rightarrow> 's
    \<Rightarrow> (addr list \<times> 's) option" where
  "flatMap f [] s = Some ([], s)"
| "flatMap f (d # ds) s =
     (case f d s of
        None \<Rightarrow> None
      | Some (r, s1) \<Rightarrow>
          (case flatMap f ds s1 of
             None \<Rightarrow> None
           | Some (rs, s2) \<Rightarrow> Some (r @ rs, s2)))"

text \<open>
  Lines 142-151: \<open>column.getFlatColumns()\<close> for the node at \<open>a\<close>. The recursion follows
  the \<open>columns\<close> of the nodes in the store and need not end (a node can be made its own
  descendant), so the function takes fuel: \<open>None\<close> is a call that does not return.
  An address outside the store names no node.
\<close>

primrec getFlatColumns :: "nat \<Rightarrow> addr \<Rightarrow> store \<Rightarrow> (addr list \<times> store) option" where
  "getFlatColumns 0 = (\<lambda>a s. None)"
| "getFlatColumns (Suc fuel) = (\<lambda>a s.
     if a < length s then
       memo [True] (col_getFlatColumns (s ! a))
         (\<lambda>deps s.
            case flatMap (getFlatColumns fuel) (col_columns (s ! a)) s of
              None \<Rightarrow> None
            | Some (rest, s') \<Rightarrow> Some (a # rest, s'))
         (\<lambda>cell s. s[a := (s ! a)\<lparr>col_getFlatColumns := cell\<rparr>])
         s
     else None)"

text \<open>Lines 152-166: \<open>column.getLeafColumns()\<close> for the node at \<open>a\<close>, in the current state
  of the table.\<close>

primrec getLeafColumns :: "nat \<Rightarrow> Table \<Rightarrow> addr \<Rightarrow> store \<Rightarrow> (addr list \<times> store) option" where
  "getLeafColumns 0 = (\<lambda>table a s. None)"
| "getLeafColumns (Suc fuel) = (\<lambda>table a s.
     if a < length s then
       (let orderColumns = getOrderColumnsFn table in
        memo [fn_ref orderColumns] (col_getLeafColumns (s ! a))
          (\<lambda>deps s.
             if col_columns (s ! a) \<noteq> [] then
               (case flatMap (getLeafColumns fuel table) (col_columns (s ! a)) s of
                  None \<Rightarrow> None
                | Some (leafColumns, s') \<Rightarrow> Some (fn_call orderColumns leafColumns, s'))
             else Some ([a], s))
          (\<lambda>cell s. s[a := (s ! a)\<lparr>col_getLeafColumns := cell\<rparr>])
          s)
     else None)"

text \<open>
  Modelled from the spec: the assignment \<open>column.columns = children\<close> that the table makes
  after construction, when it has built the nodes of the nested definitions
  (\<open>createColumn\<close> never fills \<open>columns\<close> itself); the code of the table is not among the
  sources.
\<close>

definition setColumns :: "addr \<Rightarrow> addr list \<Rightarrow> store \<Rightarrow> store" where
  "setColumns a children s = s[a := (s ! a)\<lparr>col_columns := children\<rparr>]"

subsection \<open>Column trees\<close>

text \<open>
  The column tree that the store holds below a node, and the two sequences the spec
  describes for it: the pre-order sequence of all nodes, and the leaves, ordered at
  every group by the ordering function.
\<close>

datatype ctree = CNode addr "ctree list"

fun root :: "ctree \<Rightarrow> addr" where
  "root (CNode a ts) = a"

fun height :: "ctree \<Rightarrow> nat" where
  "height (CNode a ts) = Suc (foldr max (map height ts) 0)"

fun flat_spec :: "ctree \<Rightarrow> addr list" where
  "flat_spec (CNode a ts) = a # concat (map flat_spec ts)"

fun leaf_spec :: "(addr list \<Rightarrow> addr list) \<Rightarrow> ctree \<Rightarrow> addr list" where
  "leaf_spec order (CNode a ts) =
     (if ts = [] then [a] else order (concat (map (leaf_spec order) ts)))"

text \<open>The store holds the tree \<open>t\<close>: every node of \<open>t\<close> is in the store, and its \<open>columns\<close>
  are the roots of its subtrees, in order.\<close>

fun holds_tree :: "store \<Rightarrow> ctree \<Rightarrow> bool" where
  "holds_tree s (CNode a ts) =
     (a < length s \<and> col_columns (s ! a) = map root ts \<and> list_all (holds_tree s) ts)"

text \<open>No node of the tree has a stale flat-columns result: a result cached under the
  key \<open>[true]\<close> is the pre-order sequence of the node's present subtree.\<close>

fun flat_cache_ok :: "store \<Rightarrow> ctree \<Rightarrow> bool" where
  "flat_cache_ok s (CNode a ts) =
     ((case col_getFlatColumns (s ! a) of
         None \<Rightarrow> True
       | Some (deps, result) \<Rightarrow> deps = [True] \<longrightarrow> result = flat_spec (CNode a ts))
      \<and> list_all (flat_cache_ok s) ts)"

text \<open>No node of the tree has a stale leaf-columns result for the current ordering
  function: a result cached under its identity is the leaf sequence of the node's
  present subtree.\<close>

fun leaf_cache_ok :: "OrderColumnsFn \<Rightarrow> store \<Rightarrow> ctree \<Rightarrow> bool" where
  "leaf_cache_ok orderColumns s (CNode a ts) =
     ((case col_getLeafColumns (s ! a) of
         None \<Rightarrow> True
       | Some (deps, result) \<Rightarrow>
           deps = [fn_ref orderColumns] \<longrightarrow> result = leaf_spec (fn_call orderColumns) (CNode a ts))
      \<and> list_all (leaf_cache_ok orderColumns s) ts)"

subsection \<open>Example inputs\<close>

definition no_def :: ColumnDef where
  "no_def = \<lparr> def_id = Absent, def_accessorKey = Absent, def_accessorFn = Absent,
              def_header = Absent \<rparr>"

definition plain_table :: Table where
  "plain_table = \<lparr> getDefaultColumnDef = no_def, features = [],
                   getOrderColumnsFn = \<lparr> fn_ref = 0, fn_call = rev \<rparr> \<rparr>"

text \<open>A definition with an accessor function and a dotted accessor key, and nothing else.\<close>

definition row_fn :: UserAccessorFn where
  "row_fn originalRow = Inr originalRow"

definition fn_and_key_def :: ColumnDef where
  "fn_and_key_def = \<lparr> def_id = Absent, def_accessorKey = Value ''a.b'',
                      def_accessorFn = Value row_fn, def_header = Absent \<rparr>"




text \<open>A parent with two leaf children, as the table builds it: the three nodes are
  constructed, then the parent gets its \<open>columns\<close>.\<close>

definition parent_def :: ColumnDef where
  "parent_def = no_def\<lparr>def_id := Value ''parent''\<rparr>"

definition child1_def :: ColumnDef where
  "child1_def = no_def\<lparr>def_accessorKey := Value ''x''\<rparr>"

definition child2_def :: ColumnDef where
  "child2_def = no_def\<lparr>def_accessorKey := Value ''y''\<rparr>"

definition parent_node :: Column where
  "parent_node = new_column ''parent'' None None 0 parent_def"

definition child1_node :: Column where
  "child1_node = new_column ''x'' (Some (KeyFn ''x'')) (Some 0) 1 child1_def"

definition child2_node :: Column where
  "child2_node = new_column ''y'' (Some (KeyFn ''y'')) (Some 0) 1 child2_def"

definition family :: store where
  "family = [parent_node\<lparr>col_columns := [1, 2]\<rparr>, child1_node, child2_node]"

definition family_tree :: ctree where
  "family_tree = CNode 0 [CNode 1 [], CNode 2 []]"

text \<open>The same nodes when an accessor of the parent was called before the parent got
  its \<open>columns\<close>: the parent has the result of that call cached.\<close>

definition parent_flat_called :: Column where
  "parent_flat_called = parent_node\<lparr>col_getFlatColumns := Some ([True], [0])\<rparr>"

definition family_flat_called :: store where
  "family_flat_called = [parent_flat_called\<lparr>col_columns := [1, 2]\<rparr>, child1_node, child2_node]"

definition parent_leaf_called :: Column where
  "parent_leaf_called = parent_node\<lparr>col_getLeafColumns := Some ([0], [0])\<rparr>"

definition family_leaf_called :: store where
  "family_leaf_called = [parent_leaf_called\<lparr>col_columns := [1, 2]\<rparr>, child1_node, child2_node]"

section \<open>Properties of createColumn\<close>

subsection \<open>Auxiliary facts\<close>

lemma forEach_createColumn_length: "length (forEach_createColumn fs a s) = length s"
  by (induction fs arbitrary: s) (auto split: option.splits)

lemma forEach_createColumn_fold:
  "a < length s \<Longrightarrow>
   forEach_createColumn fs a s =
     s[a := foldl (\<lambda>column hook. hook column) (s ! a) (List.map_filter feature_createColumn fs)]"
proof (induction fs arbitrary: s)
  case Nil
  then show ?case by (simp add: List.map_filter_simps)
next
  case (Cons f fs)
  then show ?case
    by (cases "feature_createColumn f") (simp_all add: List.map_filter_simps)
qed

lemma createColumn_Inr:
  assumes "truthy (resolve_id (resolveColumnDef table columnDef))"
  shows "createColumn NODE_ENV table columnDef depth parent s =
     Inr (length s,
          forEach_createColumn (Object_values (features table)) (length s)
            (s @ [new_column (the (resolve_id (resolveColumnDef table columnDef)))
                    (resolve_accessorFn (resolveColumnDef table columnDef)) parent depth
                    (resolveColumnDef table columnDef)]))"
  using assms by (simp add: createColumn_def Let_def)

lemma createColumn_Inl:
  assumes "\<not> truthy (resolve_id (resolveColumnDef table columnDef))"
  shows "createColumn NODE_ENV table columnDef depth parent s =
     Inl (Error
       (if NODE_ENV \<noteq> Some ''production'' then
          (if prop_get (def_accessorFn (resolveColumnDef table columnDef)) \<noteq> None
           then ''Columns require an id when using an accessorFn''
           else ''Columns require an id when using a non-string header'')
        else ''''))"
  using assms by (simp add: createColumn_def Let_def)

lemma fold_keep_id:
  "\<forall>hook \<in> set hooks. \<forall>column. col_id (hook column) = col_id column \<Longrightarrow>
   col_id (foldl (\<lambda>column hook. hook column) c hooks) = col_id c"
  by (induction hooks arbitrary: c) auto

lemma forEach_createColumn_keep_id:
  assumes "hooks_keep_id table" "a < length s"
  shows "col_id (forEach_createColumn (Object_values (features table)) a s ! a) = col_id (s ! a)"
proof -
  have "\<forall>hook \<in> set (List.map_filter feature_createColumn (Object_values (features table))).
          \<forall>column. col_id (hook column) = col_id column"
    using assms(1) by (auto simp: hooks_keep_id_def List.map_filter_def split: option.splits)
  then show ?thesis
    using assms(2) by (simp add: forEach_createColumn_fold fold_keep_id)
qed

lemma js_replace_split:
  "pat \<notin> set pre \<Longrightarrow> js_replace pat rep (pre @ pat # post) = pre @ rep # post"
  by (induction pre) auto

lemma js_includes_split:
  "js_includes pat str \<Longrightarrow> \<exists>pre post. str = pre @ pat # post \<and> pat \<notin> set pre"
  unfolding js_includes_def by (rule split_list_first)

lemma js_replace_nonempty: "str \<noteq> [] \<Longrightarrow> js_replace pat rep str \<noteq> []"
  by (cases str) auto

text \<open>A node constructed with a resolved, non-empty id.\<close>

lemma createColumn_with_id:
  assumes "resolve_id (resolveColumnDef table columnDef) = Some id'" and "id' \<noteq> []"
  shows "\<exists>s'.
      createColumn NODE_ENV table columnDef depth parent s = Inr (length s, s') \<and>
      s' = forEach_createColumn (Object_values (features table)) (length s)
             (s @ [new_column id'
                     (resolve_accessorFn (resolveColumnDef table columnDef)) parent depth
                     (resolveColumnDef table columnDef)]) \<and>
      (hooks_keep_id table \<longrightarrow> col_id (s' ! length s) = id')"
proof -
  let ?rd = "resolveColumnDef table columnDef"
  let ?s' = "forEach_createColumn (Object_values (features table)) (length s)
             (s @ [new_column id' (resolve_accessorFn ?rd) parent depth ?rd])"
  have tr: "truthy (resolve_id ?rd)" using assms by (simp add: truthy_def)
  have cc: "createColumn NODE_ENV table columnDef depth parent s = Inr (length s, ?s')"
    using createColumn_Inr [OF tr, of NODE_ENV depth parent s] assms(1) by simp
  have keep: "hooks_keep_id table \<longrightarrow> col_id (?s' ! length s) = id'"
    by (simp add: forEach_createColumn_keep_id new_column_def)
  show ?thesis using cc keep by blast
qed

lemmas eval_defs = createColumn_def resolveColumnDef_def spread_def prop_spread_def prop_get_def
  resolve_id_def resolve_accessorFn_def nullish_def truthy_def js_includes_def new_column_def
  Object_values_def own_properties_def is_array_index_def is_digit_def digits_def index_value_def
  digit_value_def plain_table_def no_def_def Let_def hooks_keep_id_def

subsection \<open>The id derived from a dotted accessor key\<close>

text \<open>
  Claim C1. When the resolved definition has no \<open>id\<close> and its \<open>accessorKey\<close> contains a
  dot, that is (\<open>js_includes_split\<close>) it is \<open>pre.post\<close> with no dot in \<open>pre\<close>, the node is
  constructed with the id
  \<open>pre_post\<close>: the first dot becomes an underscore and \<open>post\<close>, with any further dots, is
  kept. The node is allocated at the end of the store and handed to the feature hooks;
  when the hooks leave ids alone this is the id of the returned node.
\<close>

theorem createColumn_id_first_dot:
  assumes "prop_get (def_id (resolveColumnDef table columnDef)) = None"
    and "prop_get (def_accessorKey (resolveColumnDef table columnDef)) = Some (pre @ CHR ''.'' # post)"
    and "CHR ''.'' \<notin> set pre"
  shows "\<exists>s'.
      createColumn NODE_ENV table columnDef depth parent s = Inr (length s, s') \<and>
      s' = forEach_createColumn (Object_values (features table)) (length s)
             (s @ [new_column (pre @ CHR ''_'' # post)
                     (resolve_accessorFn (resolveColumnDef table columnDef)) parent depth
                     (resolveColumnDef table columnDef)]) \<and>
      (hooks_keep_id table \<longrightarrow> col_id (s' ! length s) = pre @ CHR ''_'' # post)"
proof -
  have "resolve_id (resolveColumnDef table columnDef) = Some (pre @ CHR ''_'' # post)"
    using assms by (simp add: resolve_id_def nullish_def truthy_def js_replace_split)
  then show ?thesis
    by (rule createColumn_with_id) simp
qed

theorem createColumn_id_first_dot_witness:
  "createColumn None plain_table (no_def\<lparr>def_accessorKey := Value ''a.b''\<rparr>) 0 None [] =
     Inr (0, [new_column ''a_b'' (Some (DeepKeyFn ''a.b'')) None 0
                (no_def\<lparr>def_accessorKey := Value ''a.b''\<rparr>)]) \<and>
   createColumn None plain_table (no_def\<lparr>def_accessorKey := Value ''a.b.c''\<rparr>) 0 None [] =
     Inr (0, [new_column ''a_b.c'' (Some (DeepKeyFn ''a.b.c'')) None 0
                (no_def\<lparr>def_accessorKey := Value ''a.b.c''\<rparr>)])"
  using createColumn_id_first_dot [of plain_table "no_def\<lparr>def_accessorKey := Value ''a.b''\<rparr>"
          "''a''" "''b''" None 0 None "[]"]
        createColumn_id_first_dot [of plain_table "no_def\<lparr>def_accessorKey := Value ''a.b.c''\<rparr>"
          "''a''" "''b.c''" None 0 None "[]"]
  by (simp add: eval_defs)

subsection \<open>A definition without an id\<close>

text \<open>
  Claim C2. When the resolved definition has no \<open>id\<close>, no (non-empty) \<open>accessorKey\<close> and
  no string \<open>header\<close>, \<open>createColumn\<close> throws an \<open>Error\<close> to its caller, whatever
  \<open>NODE_ENV\<close> is: in a production build the error has no message, otherwise the message
  names the accessor function or the non-string header. No node is allocated.
\<close>

theorem createColumn_missing_id_raises:
  assumes "prop_get (def_id (resolveColumnDef table columnDef)) = None"
    and "\<not> truthy (prop_get (def_accessorKey (resolveColumnDef table columnDef)))"
    and "\<forall>h. prop_get (def_header (resolveColumnDef table columnDef)) \<noteq> Some (HeaderString h)"
  shows "createColumn NODE_ENV table columnDef depth parent s =
     Inl (Error
       (if NODE_ENV \<noteq> Some ''production'' then
          (if prop_get (def_accessorFn (resolveColumnDef table columnDef)) \<noteq> None
           then ''Columns require an id when using an accessorFn''
           else ''Columns require an id when using a non-string header'')
        else ''''))"
proof -
  have "resolve_id (resolveColumnDef table columnDef) = None"
    using assms by (auto simp: resolve_id_def nullish_def split: option.splits header.splits)
  then show ?thesis
    by (simp add: createColumn_Inl truthy_def)
qed

theorem createColumn_missing_id_raises_witness:
  "createColumn (Some ''production'') plain_table (no_def\<lparr>def_accessorFn := Value row_fn\<rparr>)
      0 None [] = Inl (Error '''') \<and>
   createColumn (Some ''development'') plain_table (no_def\<lparr>def_accessorFn := Value row_fn\<rparr>)
      0 None [] = Inl (Error ''Columns require an id when using an accessorFn'') \<and>
   createColumn None plain_table (no_def\<lparr>def_header := Value (HeaderTemplate 0)\<rparr>)
      0 None [] = Inl (Error ''Columns require an id when using a non-string header'')"
  using createColumn_missing_id_raises [of plain_table "no_def\<lparr>def_accessorFn := Value row_fn\<rparr>"
          "Some ''production''" 0 None "[]"]
        createColumn_missing_id_raises [of plain_table "no_def\<lparr>def_accessorFn := Value row_fn\<rparr>"
          "Some ''development''" 0 None "[]"]
        createColumn_missing_id_raises [of plain_table "no_def\<lparr>def_header := Value (HeaderTemplate 0)\<rparr>"
          None 0 None "[]"]
  by (simp add: eval_defs)

subsection \<open>An empty explicit id\<close>

text \<open>
  Claim C10. When the resolved definition has the empty string as its \<open>id\<close>,
  \<open>createColumn\<close> throws the missing-id error in every build mode, whatever
  \<open>accessorKey\<close> and \<open>header\<close> are: \<open>??\<close> keeps the empty string and \<open>!id\<close> rejects
  it. Whenever \<open>createColumn\<close> returns a node, the node was constructed with a non-empty
  id, and it still has a non-empty id when the hooks leave ids alone.
\<close>

theorem createColumn_empty_id_raises:
  "(prop_get (def_id (resolveColumnDef table columnDef)) = Some [] \<longrightarrow>
      createColumn NODE_ENV table columnDef depth parent s =
        Inl (Error
          (if NODE_ENV \<noteq> Some ''production'' then
             (if prop_get (def_accessorFn (resolveColumnDef table columnDef)) \<noteq> None
              then ''Columns require an id when using an accessorFn''
              else ''Columns require an id when using a non-string header'')
           else ''''))) \<and>
   (\<forall>a s'. createColumn NODE_ENV table columnDef depth parent s = Inr (a, s') \<longrightarrow>
      (\<exists>id'. id' \<noteq> [] \<and> a = length s \<and>
         s' = forEach_createColumn (Object_values (features table)) (length s)
                (s @ [new_column id'
                        (resolve_accessorFn (resolveColumnDef table columnDef)) parent depth
                        (resolveColumnDef table columnDef)]) \<and>
         (hooks_keep_id table \<longrightarrow> col_id (s' ! a) \<noteq> [])))"
proof (intro conjI impI allI)
  assume "prop_get (def_id (resolveColumnDef table columnDef)) = Some []"
  then have "resolve_id (resolveColumnDef table columnDef) = Some []"
    by (simp add: resolve_id_def nullish_def)
  then show "createColumn NODE_ENV table columnDef depth parent s =
        Inl (Error
          (if NODE_ENV \<noteq> Some ''production'' then
             (if prop_get (def_accessorFn (resolveColumnDef table columnDef)) \<noteq> None
              then ''Columns require an id when using an accessorFn''
              else ''Columns require an id when using a non-string header'')
           else ''''))"
    by (simp add: createColumn_Inl truthy_def)
next
  fix a s'
  assume ok: "createColumn NODE_ENV table columnDef depth parent s = Inr (a, s')"
  let ?rd = "resolveColumnDef table columnDef"
  have tr: "truthy (resolve_id ?rd)"
  proof (rule ccontr)
    assume "\<not> truthy (resolve_id ?rd)"
    from createColumn_Inl [OF this, of NODE_ENV depth parent s] ok show False by simp
  qed
  then obtain id' where id': "resolve_id ?rd = Some id'" "id' \<noteq> []"
    by (auto simp: truthy_def split: option.splits)
  from createColumn_with_id [OF id', of NODE_ENV depth parent s] ok
  show "\<exists>id'. id' \<noteq> [] \<and> a = length s \<and>
         s' = forEach_createColumn (Object_values (features table)) (length s)
                (s @ [new_column id' (resolve_accessorFn ?rd) parent depth ?rd]) \<and>
         (hooks_keep_id table \<longrightarrow> col_id (s' ! a) \<noteq> [])"
    using id'(2) by auto
qed

theorem createColumn_empty_id_raises_witness:
  "createColumn None plain_table
      (no_def\<lparr>def_id := Value '''', def_accessorKey := Value ''a.b'',
              def_header := Value (HeaderString ''Name'')\<rparr>) 0 None [] =
     Inl (Error ''Columns require an id when using a non-string header'') \<and>
   createColumn (Some ''production'') plain_table
      (no_def\<lparr>def_id := Value '''', def_accessorKey := Value ''a.b'',
              def_header := Value (HeaderString ''Name'')\<rparr>) 0 None [] = Inl (Error '''') \<and>
   col_id (snd (projr (createColumn None plain_table
      (no_def\<lparr>def_header := Value (HeaderString ''Name'')\<rparr>) 0 None [])) ! 0) \<noteq> []"
  using createColumn_empty_id_raises [of plain_table
          "no_def\<lparr>def_id := Value '''', def_accessorKey := Value ''a.b'',
              def_header := Value (HeaderString ''Name'')\<rparr>" None 0 None "[]"]
        createColumn_empty_id_raises [of plain_table
          "no_def\<lparr>def_id := Value '''', def_accessorKey := Value ''a.b'',
              def_header := Value (HeaderString ''Name'')\<rparr>" "Some ''production''" 0 None "[]"]
        createColumn_empty_id_raises [of plain_table
          "no_def\<lparr>def_header := Value (HeaderString ''Name'')\<rparr>" None 0 None "[]"]
  by (simp add: eval_defs)

lemma resolve_id_cases:
  "resolve_id rd =
     (case prop_get (def_id rd) of
        Some i \<Rightarrow> Some i
      | None \<Rightarrow>
          (if truthy (prop_get (def_accessorKey rd))
           then Some (js_replace (CHR ''.'') (CHR ''_'') (the (prop_get (def_accessorKey rd))))
           else (case prop_get (def_header rd) of
                   Some (HeaderString h) \<Rightarrow> Some h
                 | _ \<Rightarrow> None)))"
  by (simp add: resolve_id_def nullish_def Let_def split: option.splits)

subsection \<open>A definition with an accessor function\<close>

text \<open>
  Claim C3 says that with an \<open>accessorFn\<close> the id comes only from \<open>id\<close> or a string
  \<open>header\<close>, and that an \<open>accessorKey\<close> beside the \<open>accessorFn\<close> does not supply it.
  The id is resolved before the accessor and without looking at \<open>accessorFn\<close>: the
  definition \<open>{accessorFn, accessorKey: 'a.b'}\<close> gets a node with the id \<open>a_b\<close>.
\<close>

theorem accessorFn_id_from_accessorKey_counterexample:
  "prop_get (def_accessorFn (resolveColumnDef plain_table fn_and_key_def)) = Some row_fn \<and>
   prop_get (def_accessorKey (resolveColumnDef plain_table fn_and_key_def)) = Some ''a.b'' \<and>
   prop_get (def_id (resolveColumnDef plain_table fn_and_key_def)) = None \<and>
   prop_get (def_header (resolveColumnDef plain_table fn_and_key_def)) = None \<and>
   createColumn None plain_table fn_and_key_def 0 None [] =
     Inr (0, [new_column ''a_b'' (Some (UserFn row_fn)) None 0 fn_and_key_def]) \<and>
   col_id (new_column ''a_b'' (Some (UserFn row_fn)) None 0 fn_and_key_def) =
     js_replace (CHR ''.'') (CHR ''_'') ''a.b''"
  by (simp add: eval_defs fn_and_key_def_def)

text \<open>
  Claim C3 as amended. When the resolved definition has an \<open>accessorFn\<close>, every node that
  \<open>createColumn\<close> returns was constructed with that function as its accessor and with
  an id from the usual chain: the \<open>id\<close> of the definition; without one, a non-empty
  \<open>accessorKey\<close> with its first dot replaced; without either, a string \<open>header\<close>. So the
  id comes only from \<open>id\<close> or a string \<open>header\<close> exactly when there is no \<open>accessorKey\<close>,
  and with an \<open>accessorKey\<close> and no \<open>id\<close> the key supplies the id.
\<close>

theorem createColumn_accessorFn_verbatim:
  assumes "prop_get (def_accessorFn (resolveColumnDef table columnDef)) = Some f"
  shows "(\<forall>a s'. createColumn NODE_ENV table columnDef depth parent s = Inr (a, s') \<longrightarrow>
      (\<exists>id'. id' \<noteq> [] \<and> a = length s \<and>
         s' = forEach_createColumn (Object_values (features table)) (length s)
                (s @ [new_column id' (Some (UserFn f)) parent depth
                        (resolveColumnDef table columnDef)]) \<and>
         (prop_get (def_id (resolveColumnDef table columnDef)) = Some id' \<or>
          prop_get (def_id (resolveColumnDef table columnDef)) = None \<and>
          (\<exists>k. prop_get (def_accessorKey (resolveColumnDef table columnDef)) = Some k \<and> k \<noteq> [] \<and>
               id' = js_replace (CHR ''.'') (CHR ''_'') k) \<or>
          prop_get (def_id (resolveColumnDef table columnDef)) = None \<and>
          \<not> truthy (prop_get (def_accessorKey (resolveColumnDef table columnDef))) \<and>
          prop_get (def_header (resolveColumnDef table columnDef)) = Some (HeaderString id')))) \<and>
    (\<forall>k. prop_get (def_id (resolveColumnDef table columnDef)) = None \<and>
         prop_get (def_accessorKey (resolveColumnDef table columnDef)) = Some k \<and> k \<noteq> [] \<longrightarrow>
       createColumn NODE_ENV table columnDef depth parent s =
         Inr (length s,
              forEach_createColumn (Object_values (features table)) (length s)
                (s @ [new_column (js_replace (CHR ''.'') (CHR ''_'') k) (Some (UserFn f)) parent
                        depth (resolveColumnDef table columnDef)])))"
proof (intro conjI allI impI)
  let ?rd = "resolveColumnDef table columnDef"
  have acc: "resolve_accessorFn ?rd = Some (UserFn f)"
    using assms by (simp add: resolve_accessorFn_def)
  {
    fix a s'
    assume ok: "createColumn NODE_ENV table columnDef depth parent s = Inr (a, s')"
    have tr: "truthy (resolve_id ?rd)"
    proof (rule ccontr)
      assume "\<not> truthy (resolve_id ?rd)"
      from createColumn_Inl [OF this, of NODE_ENV depth parent s] ok show False by simp
    qed
    then obtain id' where id': "resolve_id ?rd = Some id'" "id' \<noteq> []"
      by (auto simp: truthy_def split: option.splits)
    have src: "prop_get (def_id ?rd) = Some id' \<or>
          prop_get (def_id ?rd) = None \<and>
          (\<exists>k. prop_get (def_accessorKey ?rd) = Some k \<and> k \<noteq> [] \<and>
               id' = js_replace (CHR ''.'') (CHR ''_'') k) \<or>
          prop_get (def_id ?rd) = None \<and>
          \<not> truthy (prop_get (def_accessorKey ?rd)) \<and>
          prop_get (def_header ?rd) = Some (HeaderString id')"
      using id'(1) unfolding resolve_id_cases
      by (auto simp: truthy_def split: option.splits if_splits header.splits)
    from createColumn_with_id [OF id', of NODE_ENV depth parent s] ok acc
    have "a = length s \<and>
         s' = forEach_createColumn (Object_values (features table)) (length s)
                (s @ [new_column id' (Some (UserFn f)) parent depth ?rd])"
      by auto
    with id'(2) src
    show "\<exists>id'. id' \<noteq> [] \<and> a = length s \<and>
         s' = forEach_createColumn (Object_values (features table)) (length s)
                (s @ [new_column id' (Some (UserFn f)) parent depth ?rd]) \<and>
         (prop_get (def_id ?rd) = Some id' \<or>
          prop_get (def_id ?rd) = None \<and>
          (\<exists>k. prop_get (def_accessorKey ?rd) = Some k \<and> k \<noteq> [] \<and>
               id' = js_replace (CHR ''.'') (CHR ''_'') k) \<or>
          prop_get (def_id ?rd) = None \<and>
          \<not> truthy (prop_get (def_accessorKey ?rd)) \<and>
          prop_get (def_header ?rd) = Some (HeaderString id'))"
      by blast
  }
  {
    fix k
    assume k: "prop_get (def_id ?rd) = None \<and> prop_get (def_accessorKey ?rd) = Some k \<and> k \<noteq> []"
    then have "resolve_id ?rd = Some (js_replace (CHR ''.'') (CHR ''_'') k)"
      by (simp add: resolve_id_cases truthy_def)
    from createColumn_with_id [OF this, of NODE_ENV depth parent s] k acc
    show "createColumn NODE_ENV table columnDef depth parent s =
         Inr (length s,
              forEach_createColumn (Object_values (features table)) (length s)
                (s @ [new_column (js_replace (CHR ''.'') (CHR ''_'') k) (Some (UserFn f)) parent
                        depth ?rd]))"
      by (auto simp: js_replace_nonempty)
  }
qed

theorem createColumn_accessorFn_verbatim_witness:
  "createColumn None plain_table fn_and_key_def 0 None [] =
     Inr (0, [new_column ''a_b'' (Some (UserFn row_fn)) None 0 fn_and_key_def]) \<and>
   createColumn None plain_table
      (no_def\<lparr>def_accessorFn := Value row_fn, def_header := Value (HeaderString ''Name'')\<rparr>)
      0 None [] =
     Inr (0, [new_column ''Name'' (Some (UserFn row_fn)) None 0
       (no_def\<lparr>def_accessorFn := Value row_fn, def_header := Value (HeaderString ''Name'')\<rparr>)])"
  using createColumn_accessorFn_verbatim [of plain_table fn_and_key_def row_fn None 0 None "[]"]
        createColumn_accessorFn_verbatim [of plain_table
          "no_def\<lparr>def_accessorFn := Value row_fn, def_header := Value (HeaderString ''Name'')\<rparr>"
          row_fn None 0 None "[]"]
  by (simp add: eval_defs fn_and_key_def_def)

subsection \<open>The priority of id, accessor key and header\<close>

text \<open>
  Claim C4. A resolved definition with a non-empty \<open>id\<close> gives a node constructed with
  exactly that id (the id is a string, which \<open>String\<close> leaves as it is), whatever
  \<open>accessorKey\<close> and \<open>header\<close> are. Without an \<open>id\<close>, a non-empty \<open>accessorKey\<close> gives the
  id (first dot replaced), whatever \<open>header\<close> is; without either, a non-empty string
  \<open>header\<close> gives it. In each case this is the id of the returned node when the hooks
  leave ids alone.
\<close>

theorem createColumn_id_priority:
  "(prop_get (def_id (resolveColumnDef table columnDef)) = Some i \<and> i \<noteq> [] \<longrightarrow>
      (\<exists>s'. createColumn NODE_ENV table columnDef depth parent s = Inr (length s, s') \<and>
         s' = forEach_createColumn (Object_values (features table)) (length s)
                (s @ [new_column i (resolve_accessorFn (resolveColumnDef table columnDef))
                        parent depth (resolveColumnDef table columnDef)]) \<and>
         (hooks_keep_id table \<longrightarrow> col_id (s' ! length s) = i))) \<and>
   (prop_get (def_id (resolveColumnDef table columnDef)) = None \<and>
    prop_get (def_accessorKey (resolveColumnDef table columnDef)) = Some k \<and> k \<noteq> [] \<longrightarrow>
      (\<exists>s'. createColumn NODE_ENV table columnDef depth parent s = Inr (length s, s') \<and>
         s' = forEach_createColumn (Object_values (features table)) (length s)
                (s @ [new_column (js_replace (CHR ''.'') (CHR ''_'') k)
                        (resolve_accessorFn (resolveColumnDef table columnDef))
                        parent depth (resolveColumnDef table columnDef)]) \<and>
         (hooks_keep_id table \<longrightarrow> col_id (s' ! length s) = js_replace (CHR ''.'') (CHR ''_'') k))) \<and>
   (prop_get (def_id (resolveColumnDef table columnDef)) = None \<and>
    \<not> truthy (prop_get (def_accessorKey (resolveColumnDef table columnDef))) \<and>
    prop_get (def_header (resolveColumnDef table columnDef)) = Some (HeaderString h) \<and> h \<noteq> [] \<longrightarrow>
      (\<exists>s'. createColumn NODE_ENV table columnDef depth parent s = Inr (length s, s') \<and>
         s' = forEach_createColumn (Object_values (features table)) (length s)
                (s @ [new_column h (resolve_accessorFn (resolveColumnDef table columnDef))
                        parent depth (resolveColumnDef table columnDef)]) \<and>
         (hooks_keep_id table \<longrightarrow> col_id (s' ! length s) = h)))"
proof (intro conjI impI)
  let ?rd = "resolveColumnDef table columnDef"
  {
    assume "prop_get (def_id ?rd) = Some i \<and> i \<noteq> []"
    then have "resolve_id ?rd = Some i" "i \<noteq> []"
      by (simp_all add: resolve_id_cases)
    then show "\<exists>s'. createColumn NODE_ENV table columnDef depth parent s = Inr (length s, s') \<and>
         s' = forEach_createColumn (Object_values (features table)) (length s)
                (s @ [new_column i (resolve_accessorFn ?rd) parent depth ?rd]) \<and>
         (hooks_keep_id table \<longrightarrow> col_id (s' ! length s) = i)"
      by (rule createColumn_with_id)
  }
  {
    assume "prop_get (def_id ?rd) = None \<and> prop_get (def_accessorKey ?rd) = Some k \<and> k \<noteq> []"
    then have "resolve_id ?rd = Some (js_replace (CHR ''.'') (CHR ''_'') k)"
        "js_replace (CHR ''.'') (CHR ''_'') k \<noteq> []"
      by (simp_all add: resolve_id_cases truthy_def js_replace_nonempty)
    then show "\<exists>s'. createColumn NODE_ENV table columnDef depth parent s = Inr (length s, s') \<and>
         s' = forEach_createColumn (Object_values (features table)) (length s)
                (s @ [new_column (js_replace (CHR ''.'') (CHR ''_'') k)
                        (resolve_accessorFn ?rd) parent depth ?rd]) \<and>
         (hooks_keep_id table \<longrightarrow> col_id (s' ! length s) = js_replace (CHR ''.'') (CHR ''_'') k)"
      by (rule createColumn_with_id)
  }
  {
    assume "prop_get (def_id ?rd) = None \<and> \<not> truthy (prop_get (def_accessorKey ?rd)) \<and>
            prop_get (def_header ?rd) = Some (HeaderString h) \<and> h \<noteq> []"
    then have "resolve_id ?rd = Some h" "h \<noteq> []"
      by (simp_all add: resolve_id_cases)
    then show "\<exists>s'. createColumn NODE_ENV table columnDef depth parent s = Inr (length s, s') \<and>
         s' = forEach_createColumn (Object_values (features table)) (length s)
                (s @ [new_column h (resolve_accessorFn ?rd) parent depth ?rd]) \<and>
         (hooks_keep_id table \<longrightarrow> col_id (s' ! length s) = h)"
      by (rule createColumn_with_id)
  }
qed

theorem createColumn_id_priority_witness:
  "createColumn None plain_table
      (no_def\<lparr>def_id := Value ''total'', def_accessorKey := Value ''a.b'',
              def_header := Value (HeaderString ''Name'')\<rparr>) 0 None [] =
     Inr (0, [new_column ''total'' (Some (DeepKeyFn ''a.b'')) None 0
       (no_def\<lparr>def_id := Value ''total'', def_accessorKey := Value ''a.b'',
              def_header := Value (HeaderString ''Name'')\<rparr>)]) \<and>
   createColumn None plain_table
      (no_def\<lparr>def_accessorKey := Value ''a.b'', def_header := Value (HeaderString ''Name'')\<rparr>)
      0 None [] =
     Inr (0, [new_column ''a_b'' (Some (DeepKeyFn ''a.b'')) None 0
       (no_def\<lparr>def_accessorKey := Value ''a.b'', def_header := Value (HeaderString ''Name'')\<rparr>)]) \<and>
   createColumn None plain_table (no_def\<lparr>def_header := Value (HeaderString ''Name'')\<rparr>)
      0 None [] =
     Inr (0, [new_column ''Name'' None None 0
       (no_def\<lparr>def_header := Value (HeaderString ''Name'')\<rparr>)])"
  using createColumn_id_priority [of plain_table
          "no_def\<lparr>def_id := Value ''total'', def_accessorKey := Value ''a.b'',
              def_header := Value (HeaderString ''Name'')\<rparr>" "''total''" None 0 None "[]"
          "''a.b''" "''Name''"]
        createColumn_id_priority [of plain_table
          "no_def\<lparr>def_accessorKey := Value ''a.b'', def_header := Value (HeaderString ''Name'')\<rparr>"
          "''total''" None 0 None "[]" "''a.b''" "''Name''"]
        createColumn_id_priority [of plain_table
          "no_def\<lparr>def_header := Value (HeaderString ''Name'')\<rparr>"
          "''total''" None 0 None "[]" "''a.b''" "''Name''"]
  by (simp add: eval_defs)

subsection \<open>The accessor for a deep key\<close>

lemma deep_loop_value:
  "fst (deep_loop NODE_ENV accessorKey keys result log) = foldl js_get_opt result keys"
  by (induction keys arbitrary: result log) (simp_all add: Let_def)

lemma deep_loop_production:
  "snd (deep_loop (Some ''production'') accessorKey keys result log) = log"
  by (induction keys arbitrary: result log) (simp_all add: Let_def)

text \<open>
  Claim C5. A definition with a dotted \<open>accessorKey\<close> and no \<open>accessorFn\<close> gets the deep
  accessor for that key. Called on any row, in any build mode, the deep accessor returns
  (it never throws) the value reached by reading the segments of the key one after the
  other with \<open>?.[]\<close>, and in a production build it logs nothing. For the key \<open>a.b\<close> the
  row \<open>{a: {b: 5}}\<close> gives \<open>5\<close> and the row \<open>{a: null}\<close> gives \<open>undefined\<close>.
\<close>

theorem deepKeyFn_walks_segments:
  "(prop_get (def_accessorFn resolvedColumnDef) = None \<and>
    prop_get (def_accessorKey resolvedColumnDef) = Some accessorKey \<and>
    CHR ''.'' \<in> set accessorKey \<longrightarrow>
      resolve_accessorFn resolvedColumnDef = Some (DeepKeyFn accessorKey)) \<and>
   (\<exists>log. call_accessorFn NODE_ENV (DeepKeyFn accessorKey) originalRow =
      Inr (foldl js_get_opt originalRow (js_split (CHR ''.'') accessorKey), log) \<and>
      (NODE_ENV = Some ''production'' \<longrightarrow> log = [])) \<and>
   (\<exists>log. call_accessorFn NODE_ENV (DeepKeyFn ''a.b'') (JObj [(''a'', JObj [(''b'', JNum 5)])]) =
      Inr (JNum 5, log)) \<and>
   (\<exists>log. call_accessorFn NODE_ENV (DeepKeyFn ''a.b'') (JObj [(''a'', JNull)]) =
      Inr (JUndefined, log))"
proof (intro conjI impI)
  assume "prop_get (def_accessorFn resolvedColumnDef) = None \<and>
    prop_get (def_accessorKey resolvedColumnDef) = Some accessorKey \<and>
    CHR ''.'' \<in> set accessorKey"
  then show "resolve_accessorFn resolvedColumnDef = Some (DeepKeyFn accessorKey)"
    by (auto simp: resolve_accessorFn_def truthy_def js_includes_def Let_def)
next
  have "fst (deepKeyFn NODE_ENV accessorKey originalRow) =
        foldl js_get_opt originalRow (js_split (CHR ''.'') accessorKey)"
    by (simp add: deepKeyFn_def deep_loop_value)
  moreover have "NODE_ENV = Some ''production'' \<longrightarrow>
        snd (deepKeyFn NODE_ENV accessorKey originalRow) = []"
    by (simp add: deepKeyFn_def deep_loop_production)
  ultimately show "\<exists>log. call_accessorFn NODE_ENV (DeepKeyFn accessorKey) originalRow =
      Inr (foldl js_get_opt originalRow (js_split (CHR ''.'') accessorKey), log) \<and>
      (NODE_ENV = Some ''production'' \<longrightarrow> log = [])"
    by (cases "deepKeyFn NODE_ENV accessorKey originalRow") auto
next
  have "fst (deepKeyFn NODE_ENV ''a.b'' (JObj [(''a'', JObj [(''b'', JNum 5)])])) = JNum 5"
    by (simp add: deepKeyFn_def deep_loop_value)
  then show "\<exists>log. call_accessorFn NODE_ENV (DeepKeyFn ''a.b'')
      (JObj [(''a'', JObj [(''b'', JNum 5)])]) = Inr (JNum 5, log)"
    by (cases "deepKeyFn NODE_ENV ''a.b'' (JObj [(''a'', JObj [(''b'', JNum 5)])])") auto
next
  have "fst (deepKeyFn NODE_ENV ''a.b'' (JObj [(''a'', JNull)])) = JUndefined"
    by (simp add: deepKeyFn_def deep_loop_value)
  then show "\<exists>log. call_accessorFn NODE_ENV (DeepKeyFn ''a.b'') (JObj [(''a'', JNull)]) =
      Inr (JUndefined, log)"
    by (cases "deepKeyFn NODE_ENV ''a.b'' (JObj [(''a'', JNull)])") auto
qed

theorem deepKeyFn_walks_segments_witness:
  "resolve_accessorFn (no_def\<lparr>def_accessorKey := Value ''a.b''\<rparr>) = Some (DeepKeyFn ''a.b'') \<and>
   call_accessorFn (Some ''production'') (DeepKeyFn ''a.b'') (JObj [(''a'', JObj [(''b'', JNum 5)])]) =
     Inr (JNum 5, []) \<and>
   call_accessorFn (Some ''production'') (DeepKeyFn ''a.b'') (JObj [(''a'', JNull)]) =
     Inr (JUndefined, []) \<and>
   call_accessorFn None (DeepKeyFn ''a.b'') (JObj [(''a'', JNull)]) =
     Inr (JUndefined, [warning ''b'' ''a.b''])"
  using deepKeyFn_walks_segments [of "no_def\<lparr>def_accessorKey := Value ''a.b''\<rparr>" "''a.b''"
          "Some ''production''" "JObj [(''a'', JNull)]"]
  by (simp add: eval_defs deepKeyFn_def)

subsection \<open>Feature hooks\<close>









section \<open>Properties of the memoised accessors\<close>

subsection \<open>Calls in sequence\<close>

lemma flatMap_mono:
  assumes "\<And>d s x. f d s = Some x \<Longrightarrow> g d s = Some x"
    and "flatMap f ds s = Some y"
  shows "flatMap g ds s = Some y"
  using assms(2)
proof (induction ds arbitrary: s y)
  case Nil
  then show ?case by simp
next
  case (Cons d ds)
  from Cons.prems obtain r s1 rs s2 where
    f: "f d s = Some (r, s1)" and rest: "flatMap f ds s1 = Some (rs, s2)" and y: "y = (r @ rs, s2)"
    by (auto split: option.splits)
  from f have "g d s = Some (r, s1)" by (rule assms(1))
  moreover from rest have "flatMap g ds s1 = Some (rs, s2)" by (rule Cons.IH)
  ultimately show ?case using y by simp
qed

lemma flatMap_length:
  assumes "\<And>d s r s'. f d s = Some (r, s') \<Longrightarrow> length s' = length s"
    and "flatMap f ds s = Some (rs, s')"
  shows "length s' = length (s::store)"
  using assms(2)
proof (induction ds arbitrary: s rs)
  case Nil
  then show ?case by simp
next
  case (Cons d ds)
  from Cons.prems obtain r s1 rs1 where
    f: "f d s = Some (r, s1)" and rest: "flatMap f ds s1 = Some (rs1, s')"
    by (auto split: option.splits)
  from assms(1) [OF f] Cons.IH [OF rest] show ?case by simp
qed

text \<open>Running \<open>f\<close> over the roots of trees that each satisfy a condition \<open>Q\<close> which \<open>f\<close>
  maintains for all trees.\<close>

lemma flatMap_trees:
  assumes "\<And>t s. t \<in> set ts \<Longrightarrow> Q s t \<Longrightarrow>
             \<exists>s'. f (root t) s = Some (g t, s') \<and> (\<forall>u. Q s u \<longrightarrow> Q s' u)"
    and "\<forall>t \<in> set ts. Q s t"
  shows "\<exists>s'. flatMap f (map root ts) s = Some (concat (map g ts), s') \<and> (\<forall>u. Q s u \<longrightarrow> Q s' u)"
  using assms
proof (induction ts arbitrary: s)
  case Nil
  then show ?case by simp
next
  case (Cons t ts)
  from Cons.prems(1) [of t s] Cons.prems(2) obtain s1 where
    t: "f (root t) s = Some (g t, s1)" and keep1: "\<forall>u. Q s u \<longrightarrow> Q s1 u"
    by auto
  have "\<forall>t \<in> set ts. Q s1 t"
    using Cons.prems(2) keep1 by simp
  with Cons.IH [of s1] Cons.prems(1) obtain s2 where
    ts: "flatMap f (map root ts) s1 = Some (concat (map g ts), s2)"
    and keep2: "\<forall>u. Q s1 u \<longrightarrow> Q s2 u"
    by (metis list.set_intros(2))
  from t ts keep1 keep2 show ?case by simp
qed

subsection \<open>Trees in the store\<close>

lemma height_child: "t \<in> set ts \<Longrightarrow> height t \<le> foldr max (map height ts) 0"
  by (induction ts) auto

lemma holds_tree_unique:
  "holds_tree s u \<Longrightarrow> holds_tree s w \<Longrightarrow> root u = root w \<Longrightarrow> u = w"
proof (induction u arbitrary: w)
  case (CNode a us)
  obtain b ws where w: "w = CNode b ws" by (cases w)
  from CNode.prems w have ab: "a = b" and roots: "map root us = map root ws"
    and us: "list_all (holds_tree s) us" and ws: "list_all (holds_tree s) ws"
    by auto
  from roots have len: "length us = length ws"
    by (metis length_map)
  have "us ! i = ws ! i" if i: "i < length us" for i
  proof (rule CNode.IH)
    show "us ! i \<in> set us" using i by simp
    show "holds_tree s (us ! i)" using us i by (simp add: list_all_length)
    show "holds_tree s (ws ! i)" using ws i len by (simp add: list_all_length)
    show "root (us ! i) = root (ws ! i)"
      using roots i len by (metis nth_map)
  qed
  with len have "us = ws" by (simp add: nth_equalityI)
  with ab w show ?case by simp
qed

lemma col_columns_flat_cell:
  "col_columns (s[a := (s ! a)\<lparr>col_getFlatColumns := cell\<rparr>] ! b) = col_columns (s ! b)"
  by (cases "a < length s") (auto simp: nth_list_update list_update_beyond)

lemma holds_tree_flat_cell:
  "holds_tree (s[a := (s ! a)\<lparr>col_getFlatColumns := cell\<rparr>]) u = holds_tree s u"
  by (induction u) (auto simp: col_columns_flat_cell list_all_iff)

lemma flat_cache_ok_write:
  assumes "holds_tree s t" "holds_tree s u" "flat_cache_ok s u"
  shows "flat_cache_ok (s[root t := (s ! root t)\<lparr>col_getFlatColumns := Some ([True], flat_spec t)\<rparr>]) u"
  using assms(2,3)
proof (induction u)
  case (CNode b us)
  have kids: "list_all (flat_cache_ok
      (s[root t := (s ! root t)\<lparr>col_getFlatColumns := Some ([True], flat_spec t)\<rparr>])) us"
    using CNode by (auto simp: list_all_iff)
  show ?case
  proof (cases "b = root t")
    case True
    with CNode.prems(1) assms(1) have "t = CNode b us"
      by (metis holds_tree_unique root.simps)
    with CNode.prems(1) kids show ?thesis by simp
  next
    case False
    with CNode.prems(2) kids show ?thesis by simp
  qed
qed

subsection \<open>getFlatColumns\<close>

lemma getFlatColumns_fuel_mono:
  "getFlatColumns n a s = Some x \<Longrightarrow> n \<le> m \<Longrightarrow> getFlatColumns m a s = Some x"
proof (induction n arbitrary: m a s x)
  case 0
  then show ?case by simp
next
  case (Suc n)
  then obtain m' where m: "m = Suc m'" and le: "n \<le> m'" by (cases m) auto
  have step: "\<And>d s x. getFlatColumns n d s = Some x \<Longrightarrow> getFlatColumns m' d s = Some x"
    using Suc.IH le by blast
  have fm: "\<And>ds s y. flatMap (getFlatColumns n) ds s = Some y \<Longrightarrow>
                flatMap (getFlatColumns m') ds s = Some y"
    using flatMap_mono [of "getFlatColumns n" "getFlatColumns m'"] step by blast
  from Suc.prems(1) show ?case
    unfolding m
    by (auto simp: memo_def Let_def split: if_splits option.splits dest!: fm)
qed

lemma getFlatColumns_length:
  "getFlatColumns n a s = Some (r, s') \<Longrightarrow> length s' = length s"
proof (induction n arbitrary: a s r s')
  case 0
  then show ?case by simp
next
  case (Suc n)
  have fm: "\<And>ds s rs s'. flatMap (getFlatColumns n) ds s = Some (rs, s') \<Longrightarrow> length s' = length s"
    using flatMap_length [of "getFlatColumns n"] Suc.IH by blast
  from Suc.prems show ?case
    by (auto simp: memo_def Let_def split: if_splits option.splits dest!: fm)
qed

lemma getFlatColumns_cached:
  assumes "getFlatColumns n a s = Some (r, s')"
  shows "a < length s' \<and> col_getFlatColumns (s' ! a) = Some ([True], r)"
proof (cases n)
  case 0
  with assms show ?thesis by simp
next
  case (Suc k)
  have fm: "\<And>ds s rs s'. flatMap (getFlatColumns k) ds s = Some (rs, s') \<Longrightarrow> length s' = length s"
    using flatMap_length [of "getFlatColumns k"] getFlatColumns_length by blast
  from assms show ?thesis
    unfolding Suc
    by (auto simp: memo_def Let_def split: if_splits option.splits dest!: fm)
qed

lemma getFlatColumns_tree:
  "holds_tree s t \<and> flat_cache_ok s t \<Longrightarrow>
   \<exists>s'. getFlatColumns (height t) (root t) s = Some (flat_spec t, s') \<and>
        (\<forall>u. holds_tree s u \<and> flat_cache_ok s u \<longrightarrow> holds_tree s' u \<and> flat_cache_ok s' u)"
proof (induction t arbitrary: s)
  case (CNode a ts)
  let ?Q = "\<lambda>s u. holds_tree s u \<and> flat_cache_ok s u"
  let ?h = "foldr max (map height ts) 0"
  from CNode.prems have a: "a < length s" and cols: "col_columns (s ! a) = map root ts"
    and kids: "\<forall>t \<in> set ts. ?Q s t"
    by (auto simp: list_all_iff)
  show ?case
  proof (cases "\<exists>result. col_getFlatColumns (s ! a) = Some ([True], result)")
    case True
    then obtain result where hit: "col_getFlatColumns (s ! a) = Some ([True], result)" ..
    with CNode.prems have "result = flat_spec (CNode a ts)" by simp
    with hit a have "getFlatColumns (height (CNode a ts)) (root (CNode a ts)) s =
        Some (flat_spec (CNode a ts), s)"
      by (simp add: memo_def)
    then show ?thesis by blast
  next
    case False
    have child: "\<exists>s'. getFlatColumns ?h (root t) s = Some (flat_spec t, s') \<and>
          (\<forall>u. ?Q s u \<longrightarrow> ?Q s' u)"
      if "t \<in> set ts" "?Q s t" for t s
    proof -
      from CNode.IH [OF that] obtain s' where
        "getFlatColumns (height t) (root t) s = Some (flat_spec t, s')"
        and keep: "\<forall>u. ?Q s u \<longrightarrow> ?Q s' u"
        by blast
      then have "getFlatColumns ?h (root t) s = Some (flat_spec t, s')"
        using getFlatColumns_fuel_mono height_child [OF that(1)] by blast
      with keep show ?thesis by blast
    qed
    from flatMap_trees [of ts ?Q "getFlatColumns ?h" flat_spec s, OF child kids]
    obtain s1 where run: "flatMap (getFlatColumns ?h) (map root ts) s =
        Some (concat (map flat_spec ts), s1)"
      and keep1: "\<forall>u. ?Q s u \<longrightarrow> ?Q s1 u"
      by blast
    let ?s2 = "s1[a := (s1 ! a)\<lparr>col_getFlatColumns := Some ([True], flat_spec (CNode a ts))\<rparr>]"
    from False have miss: "(case col_getFlatColumns (s ! a) of None \<Rightarrow> True
        | Some (deps, result) \<Rightarrow> deps \<noteq> [True])"
      by (auto split: option.splits)
    have call: "getFlatColumns (height (CNode a ts)) (root (CNode a ts)) s =
        Some (flat_spec (CNode a ts), ?s2)"
      using a cols run miss by (simp add: memo_def)
    have t1: "holds_tree s1 (CNode a ts)"
      using keep1 CNode.prems by blast
    have keep2: "?Q ?s2 u" if "?Q s u" for u
    proof -
      from that keep1 have u1: "holds_tree s1 u" "flat_cache_ok s1 u" by blast+
      from u1(1) have "holds_tree ?s2 u" by (simp add: holds_tree_flat_cell)
      moreover from flat_cache_ok_write [OF t1 u1] have "flat_cache_ok ?s2 u" by simp
      ultimately show ?thesis ..
    qed
    from call keep2 show ?thesis by blast
  qed
qed

lemmas family_defs = family_def family_tree_def family_flat_called_def family_leaf_called_def
  parent_flat_called_def parent_leaf_called_def parent_node_def child1_node_def child2_node_def
  parent_def_def child1_def_def child2_def_def




subsection \<open>getLeafColumns\<close>

lemma col_columns_leaf_cell:
  "col_columns (s[a := (s ! a)\<lparr>col_getLeafColumns := cell\<rparr>] ! b) = col_columns (s ! b)"
  by (cases "a < length s") (auto simp: nth_list_update list_update_beyond)

lemma holds_tree_leaf_cell:
  "holds_tree (s[a := (s ! a)\<lparr>col_getLeafColumns := cell\<rparr>]) u = holds_tree s u"
  by (induction u) (auto simp: col_columns_leaf_cell list_all_iff)

lemma leaf_cache_ok_write:
  assumes "holds_tree s t" "holds_tree s u" "leaf_cache_ok orderColumns s u"
  shows "leaf_cache_ok orderColumns
     (s[root t := (s ! root t)\<lparr>col_getLeafColumns :=
          Some ([fn_ref orderColumns], leaf_spec (fn_call orderColumns) t)\<rparr>]) u"
  using assms(2,3)
proof (induction u)
  case (CNode b us)
  have kids: "list_all (leaf_cache_ok orderColumns
      (s[root t := (s ! root t)\<lparr>col_getLeafColumns :=
          Some ([fn_ref orderColumns], leaf_spec (fn_call orderColumns) t)\<rparr>])) us"
    using CNode by (auto simp: list_all_iff)
  show ?case
  proof (cases "b = root t")
    case True
    with CNode.prems(1) assms(1) have "t = CNode b us"
      by (metis holds_tree_unique root.simps)
    with CNode.prems(1) kids show ?thesis by simp
  next
    case False
    with CNode.prems(2) kids show ?thesis by simp
  qed
qed

lemma getLeafColumns_fuel_mono:
  "getLeafColumns n table a s = Some x \<Longrightarrow> n \<le> m \<Longrightarrow> getLeafColumns m table a s = Some x"
proof (induction n arbitrary: m a s x)
  case 0
  then show ?case by simp
next
  case (Suc n)
  then obtain m' where m: "m = Suc m'" and le: "n \<le> m'" by (cases m) auto
  have step: "\<And>d s x. getLeafColumns n table d s = Some x \<Longrightarrow>
                getLeafColumns m' table d s = Some x"
    using Suc.IH le by blast
  have fm: "\<And>ds s y. flatMap (getLeafColumns n table) ds s = Some y \<Longrightarrow>
                flatMap (getLeafColumns m' table) ds s = Some y"
    using flatMap_mono [of "getLeafColumns n table" "getLeafColumns m' table"] step by blast
  from Suc.prems(1) show ?case
    unfolding m
    by (auto simp: memo_def Let_def split: if_splits option.splits dest!: fm)
qed

lemma getLeafColumns_length:
  "getLeafColumns n table a s = Some (r, s') \<Longrightarrow> length s' = length s"
proof (induction n arbitrary: a s r s')
  case 0
  then show ?case by simp
next
  case (Suc n)
  have fm: "\<And>ds s rs s'. flatMap (getLeafColumns n table) ds s = Some (rs, s') \<Longrightarrow>
                length s' = length s"
    using flatMap_length [of "getLeafColumns n table"] Suc.IH by blast
  from Suc.prems show ?case
    by (auto simp: memo_def Let_def split: if_splits option.splits dest!: fm)
qed

lemma getLeafColumns_cached:
  assumes "getLeafColumns n table a s = Some (r, s')"
  shows "a < length s' \<and>
         col_getLeafColumns (s' ! a) = Some ([fn_ref (getOrderColumnsFn table)], r)"
proof (cases n)
  case 0
  with assms show ?thesis by simp
next
  case (Suc k)
  have fm: "\<And>ds s rs s'. flatMap (getLeafColumns k table) ds s = Some (rs, s') \<Longrightarrow>
                length s' = length s"
    using flatMap_length [of "getLeafColumns k table"] getLeafColumns_length by blast
  from assms show ?thesis
    unfolding Suc
    by (auto simp: memo_def Let_def split: if_splits option.splits dest!: fm)
qed

lemma getLeafColumns_tree:
  "holds_tree s t \<and> leaf_cache_ok (getOrderColumnsFn table) s t \<Longrightarrow>
   \<exists>s'. getLeafColumns (height t) table (root t) s =
          Some (leaf_spec (fn_call (getOrderColumnsFn table)) t, s') \<and>
        (\<forall>u. holds_tree s u \<and> leaf_cache_ok (getOrderColumnsFn table) s u \<longrightarrow>
             holds_tree s' u \<and> leaf_cache_ok (getOrderColumnsFn table) s' u)"
proof (induction t arbitrary: s)
  case (CNode a ts)
  let ?ord = "getOrderColumnsFn table"
  let ?Q = "\<lambda>s u. holds_tree s u \<and> leaf_cache_ok ?ord s u"
  let ?h = "foldr max (map height ts) 0"
  let ?r = "leaf_spec (fn_call ?ord) (CNode a ts)"
  from CNode.prems have a: "a < length s" and cols: "col_columns (s ! a) = map root ts"
    and kids: "\<forall>t \<in> set ts. ?Q s t"
    by (auto simp: list_all_iff)
  show ?case
  proof (cases "\<exists>result. col_getLeafColumns (s ! a) = Some ([fn_ref ?ord], result)")
    case True
    then obtain result where hit: "col_getLeafColumns (s ! a) = Some ([fn_ref ?ord], result)" ..
    with CNode.prems have "result = ?r" by simp
    with hit a have "getLeafColumns (height (CNode a ts)) table (root (CNode a ts)) s = Some (?r, s)"
      by (simp add: memo_def Let_def)
    then show ?thesis by blast
  next
    case False
    then have miss: "(case col_getLeafColumns (s ! a) of None \<Rightarrow> True
        | Some (deps, result) \<Rightarrow> deps \<noteq> [fn_ref ?ord])"
      by (auto split: option.splits)
    have "\<exists>s1. (if col_columns (s ! a) \<noteq> [] then
             (case flatMap (getLeafColumns ?h table) (col_columns (s ! a)) s of
                None \<Rightarrow> None
              | Some (leafColumns, s') \<Rightarrow> Some (fn_call ?ord leafColumns, s'))
           else Some ([a], s)) = Some (?r, s1) \<and> (\<forall>u. ?Q s u \<longrightarrow> ?Q s1 u)"
    proof (cases "ts = []")
      case True
      with cols show ?thesis by simp
    next
      case group: False
      have child: "\<exists>s'. getLeafColumns ?h table (root t) s =
              Some (leaf_spec (fn_call ?ord) t, s') \<and> (\<forall>u. ?Q s u \<longrightarrow> ?Q s' u)"
        if "t \<in> set ts" "?Q s t" for t s
      proof -
        from CNode.IH [OF that] obtain s' where
          "getLeafColumns (height t) table (root t) s = Some (leaf_spec (fn_call ?ord) t, s')"
          and keep: "\<forall>u. ?Q s u \<longrightarrow> ?Q s' u"
          by blast
        then have "getLeafColumns ?h table (root t) s = Some (leaf_spec (fn_call ?ord) t, s')"
          using getLeafColumns_fuel_mono height_child [OF that(1)] by blast
        with keep show ?thesis by blast
      qed
      from flatMap_trees [of ts ?Q "getLeafColumns ?h table" "leaf_spec (fn_call ?ord)" s,
          OF child kids]
      obtain s1 where run: "flatMap (getLeafColumns ?h table) (map root ts) s =
          Some (concat (map (leaf_spec (fn_call ?ord)) ts), s1)"
        and keep1: "\<forall>u. ?Q s u \<longrightarrow> ?Q s1 u"
        by blast
      from group cols run keep1 show ?thesis by simp
    qed
    then obtain s1 where compute: "(if col_columns (s ! a) \<noteq> [] then
             (case flatMap (getLeafColumns ?h table) (col_columns (s ! a)) s of
                None \<Rightarrow> None
              | Some (leafColumns, s') \<Rightarrow> Some (fn_call ?ord leafColumns, s'))
           else Some ([a], s)) = Some (?r, s1)"
      and keep1: "\<forall>u. ?Q s u \<longrightarrow> ?Q s1 u"
      by blast
    let ?s2 = "s1[a := (s1 ! a)\<lparr>col_getLeafColumns := Some ([fn_ref ?ord], ?r)\<rparr>]"
    have call: "getLeafColumns (height (CNode a ts)) table (root (CNode a ts)) s = Some (?r, ?s2)"
      using a miss compute by (simp add: memo_def Let_def)
    have t1: "holds_tree s1 (CNode a ts)"
      using keep1 CNode.prems by blast
    have keep2: "?Q ?s2 u" if "?Q s u" for u
    proof -
      from that keep1 have u1: "holds_tree s1 u" "leaf_cache_ok ?ord s1 u" by blast+
      from u1(1) have "holds_tree ?s2 u" by (simp add: holds_tree_leaf_cell)
      moreover from leaf_cache_ok_write [OF t1 u1] have "leaf_cache_ok ?ord ?s2 u" by simp
      ultimately show ?thesis ..
    qed
    from call keep2 show ?thesis by blast
  qed
qed

text \<open>
  Claim C7 says that \<open>getLeafColumns()\<close> of a node with children returns the ordering
  function applied to the leaf columns of the children. The result is memoised under
  the identity of the ordering function: when \<open>getLeafColumns()\<close> of the parent has been
  called before the parent got its \<open>columns\<close>, and the ordering function is still the
  same, the call on the finished tree returns the cached \<open>[parent]\<close>.
\<close>

theorem getLeafColumns_stale_counterexample:
  "createColumn None plain_table parent_def 0 None [] = Inr (0, [parent_node]) \<and>
   getLeafColumns 1 plain_table 0 [parent_node] = Some ([0], [parent_leaf_called]) \<and>
   createColumn None plain_table child1_def 1 (Some 0) [parent_leaf_called] =
     Inr (1, [parent_leaf_called, child1_node]) \<and>
   createColumn None plain_table child2_def 1 (Some 0) [parent_leaf_called, child1_node] =
     Inr (2, [parent_leaf_called, child1_node, child2_node]) \<and>
   setColumns 0 [1, 2] [parent_leaf_called, child1_node, child2_node] = family_leaf_called \<and>
   holds_tree family_leaf_called family_tree \<and>
   getLeafColumns 3 plain_table 0 family_leaf_called = Some ([0], family_leaf_called) \<and>
   leaf_spec (fn_call (getOrderColumnsFn plain_table)) family_tree = [2, 1] \<and>
   fst (the (getLeafColumns 3 plain_table 0 family_leaf_called)) \<noteq>
     fn_call (getOrderColumnsFn plain_table) ([1] @ [2])"
  by (simp add: eval_defs family_defs setColumns_def memo_def numeral_3_eq_3)

text \<open>
  Claim C7 as amended. When the store holds the tree \<open>t\<close> below a node and no node of \<open>t\<close>
  has a stale result cached for the current ordering function, \<open>getLeafColumns()\<close> of the
  node returns, given fuel for the height of \<open>t\<close>: \<open>[self]\<close> when the node has no
  children, and otherwise the table's ordering function applied to the concatenation
  of the children's leaf columns (computed in the same way); the tree is still held
  afterwards and no cache is stale.
\<close>

theorem getLeafColumns_ordered:
  "holds_tree s t \<and> leaf_cache_ok (getOrderColumnsFn table) s t \<and> height t \<le> fuel \<longrightarrow>
      (\<exists>s'. getLeafColumns fuel table (root t) s =
              Some (leaf_spec (fn_call (getOrderColumnsFn table)) t, s') \<and>
            holds_tree s' t \<and> leaf_cache_ok (getOrderColumnsFn table) s' t)"
proof
  assume t: "holds_tree s t \<and> leaf_cache_ok (getOrderColumnsFn table) s t \<and> height t \<le> fuel"
  from getLeafColumns_tree [of s t table] t obtain s' where
    "getLeafColumns (height t) table (root t) s =
       Some (leaf_spec (fn_call (getOrderColumnsFn table)) t, s')"
    and "holds_tree s' t \<and> leaf_cache_ok (getOrderColumnsFn table) s' t"
    by blast
  moreover from this(1) t have "getLeafColumns fuel table (root t) s =
       Some (leaf_spec (fn_call (getOrderColumnsFn table)) t, s')"
    using getLeafColumns_fuel_mono by blast
  ultimately show "\<exists>s'. getLeafColumns fuel table (root t) s =
              Some (leaf_spec (fn_call (getOrderColumnsFn table)) t, s') \<and>
            holds_tree s' t \<and> leaf_cache_ok (getOrderColumnsFn table) s' t"
    by blast
qed

theorem getLeafColumns_ordered_witness:
  "holds_tree family family_tree \<and>
   leaf_cache_ok (getOrderColumnsFn plain_table) family family_tree \<and>
   fst (the (getLeafColumns 2 plain_table 0 family)) = [2, 1] \<and>
   fst (the (getLeafColumns 1 plain_table 1 family)) = [1]"
  using getLeafColumns_ordered [of family family_tree plain_table 2]
        getLeafColumns_ordered [of family "CNode 1 []" plain_table 1]
  by (auto simp: family_defs new_column_def plain_table_def)

subsection \<open>Repeated calls\<close>

text \<open>
  Claim C8. After a call of \<open>getFlatColumns()\<close> that returned, every later call on the
  node returns the same result and leaves the store as it is, in any store in which the
  memo cell of the node is untouched, whatever else changed (the call needs no fuel for
  the children: nothing is recomputed). The same holds for \<open>getLeafColumns()\<close> as long as
  \<open>table._getOrderColumnsFn()\<close> returns the same function object. A result is a value in
  this model, so that the cached array itself is returned shows as: the result is read
  from the cell and no store is written.
\<close>

theorem memoised_accessors_stable:
  "(\<forall>r s'. getFlatColumns n a s = Some (r, s') \<longrightarrow>
      getFlatColumns (Suc m) a s' = Some (r, s') \<and>
      (\<forall>s''. a < length s'' \<and> col_getFlatColumns (s'' ! a) = col_getFlatColumns (s' ! a) \<longrightarrow>
         getFlatColumns (Suc m) a s'' = Some (r, s''))) \<and>
   (\<forall>r s'. getLeafColumns n table a s = Some (r, s') \<longrightarrow>
      getLeafColumns (Suc m) table a s' = Some (r, s') \<and>
      (\<forall>table' s''. fn_ref (getOrderColumnsFn table') = fn_ref (getOrderColumnsFn table) \<and>
         a < length s'' \<and> col_getLeafColumns (s'' ! a) = col_getLeafColumns (s' ! a) \<longrightarrow>
         getLeafColumns (Suc m) table' a s'' = Some (r, s'')))"
proof -
  have flat: "getFlatColumns (Suc m) a s'' = Some (r, s'')"
    if "getFlatColumns n a s = Some (r, s')" "a < length s''"
      "col_getFlatColumns (s'' ! a) = col_getFlatColumns (s' ! a)" for r s' s''
    using getFlatColumns_cached [OF that(1)] that(2,3) by (simp add: memo_def)
  have leaf: "getLeafColumns (Suc m) table' a s'' = Some (r, s'')"
    if "getLeafColumns n table a s = Some (r, s')" "a < length s''"
      "col_getLeafColumns (s'' ! a) = col_getLeafColumns (s' ! a)"
      "fn_ref (getOrderColumnsFn table') = fn_ref (getOrderColumnsFn table)" for r s' s'' table'
    using getLeafColumns_cached [OF that(1)] that(2,3,4) by (simp add: memo_def Let_def)
  have flat_again: "getFlatColumns (Suc m) a s' = Some (r, s')"
    if "getFlatColumns n a s = Some (r, s')" for r s'
    using flat [OF that] getFlatColumns_cached [OF that] by simp
  have leaf_again: "getLeafColumns (Suc m) table a s' = Some (r, s')"
    if "getLeafColumns n table a s = Some (r, s')" for r s'
    using leaf [OF that] getLeafColumns_cached [OF that] by simp
  from flat flat_again leaf leaf_again show ?thesis by blast
qed

theorem memoised_accessors_stable_witness:
  "getFlatColumns 2 0 family \<noteq> None \<and>
   getFlatColumns 1 0 (snd (the (getFlatColumns 2 0 family))) = getFlatColumns 2 0 family \<and>
   getLeafColumns 2 plain_table 0 family \<noteq> None \<and>
   getLeafColumns 1 plain_table 0 (snd (the (getLeafColumns 2 plain_table 0 family))) =
     getLeafColumns 2 plain_table 0 family"
proof -
  obtain r s' where flat: "getFlatColumns 2 0 family = Some (r, s')"
    using getFlatColumns_tree [of family family_tree]
    by (auto simp: family_defs new_column_def numeral_2_eq_2)
  obtain q t' where leaf: "getLeafColumns 2 plain_table 0 family = Some (q, t')"
    using getLeafColumns_tree [of family family_tree plain_table]
    by (auto simp: family_defs new_column_def numeral_2_eq_2)
  from memoised_accessors_stable [of 2 0 family 0 plain_table] flat leaf
  have "getFlatColumns (Suc 0) 0 s' = Some (r, s')"
    and "getLeafColumns (Suc 0) plain_table 0 t' = Some (q, t')"
    by blast+
  with flat leaf show ?thesis by simp
qed

end
